theory Spec2Isabelle
  imports Complex_Main
begin

section \<open>Numerical quadrature of a fixed integrand: \<^verbatim>\<open>comp_math/lab4/main.cpp\<close>\<close>

text \<open>
  Conventions of the embedding.
  \<^item> A C++ \<open>double\<close> is a HOL \<open>real\<close>: rounding, overflow to infinity and NaN operands are
    not represented. The one place where real arithmetic would silently differ from the
    program for a finite operand is a division by zero (\<open>x / 0 = 0\<close> in HOL, an infinity or
    NaN in IEEE arithmetic); there the quotient is \<open>None\<close>, and a comparison with \<open>None\<close>
    is false, as every comparison of an infinity or a NaN with \<open>< epsilon\<close> is.
  \<^item> A C++ \<open>int\<close> is a HOL \<open>int\<close>, without the bound \<open>2\<^sup>3\<^sup>1\<close>. The subdivision counts
    and the iteration counter of the adaptive driver are shown below to stay under
    4,194,304 and 21, so that no \<open>int\<close> operation of the driver overflows. The loops
    of the fixed formulas count up to an \<open>int\<close> and cannot overflow. The one operation
    that can is the increment of an odd \<open>n\<close> in Simpson's rule, at the largest \<open>int\<close>:
    it is modelled with its 32-bit result (\<open>int_wrap\<close>). The computation of \<open>n\<close> from
    the error bound is modelled at the values \<open>main\<close> gives it, which fit an \<open>int\<close>.
  \<^item> Each \<open>for\<close> and \<open>do ... while\<close> loop is a recursive function over the loop's
    variables, with the loop's own exit conditions.
  \<^item> The calls of the integrator made by the driver and the warnings it writes to
    \<open>std::cerr\<close> are recorded in the result.
\<close>

subsection \<open>The integrand\<close>

definition func :: "real \<Rightarrow> real" where
  "func x = (x + 3) / (x * x + 4)"

subsection \<open>The three fixed formulas\<close>

function central_loop :: "real \<Rightarrow> real \<Rightarrow> int \<Rightarrow> int \<Rightarrow> real \<Rightarrow> real" where
  "central_loop a h n i sm =
     (if i < n then central_loop a h n (i + 1) (sm + func (a + (of_int i + 1 / 2) * h))
      else sm)"
  by pat_completeness auto
termination
  by (relation "measure (\<lambda>(a, h, n, i, sm). nat (n - i))") auto

declare central_loop.simps [simp del]

definition central_rectangles :: "real \<Rightarrow> real \<Rightarrow> int \<Rightarrow> real" where
  "central_rectangles a b n =
     (if n \<le> 0 then 0
      else let h = (b - a) / of_int n;
               sm = central_loop a h n 0 0
           in h * sm)"

function trapezoidal_loop :: "real \<Rightarrow> real \<Rightarrow> int \<Rightarrow> int \<Rightarrow> real \<Rightarrow> real" where
  "trapezoidal_loop a h n i sm =
     (if i < n then trapezoidal_loop a h n (i + 1) (sm + func (a + of_int i * h))
      else sm)"
  by pat_completeness auto
termination
  by (relation "measure (\<lambda>(a, h, n, i, sm). nat (n - i))") auto

declare trapezoidal_loop.simps [simp del]

definition trapezoidal_rule :: "real \<Rightarrow> real \<Rightarrow> int \<Rightarrow> real" where
  "trapezoidal_rule a b n =
     (if n \<le> 0 then 0
      else let h = (b - a) / of_int n;
               sm = (func a + func b) / 2
           in h * trapezoidal_loop a h n 1 sm)"

function simpsons_loop :: "real \<Rightarrow> real \<Rightarrow> int \<Rightarrow> int \<Rightarrow> real \<Rightarrow> real" where
  "simpsons_loop a h n i sm =
     (if i < n then
        simpsons_loop a h n (i + 1)
          (if i mod 2 = 1 then sm + 4 * func (a + of_int i * h)
           else sm + 2 * func (a + of_int i * h))
      else sm)"
  by pat_completeness auto
termination
  by (relation "measure (\<lambda>(a, h, n, i, sm). nat (n - i))") auto

declare simpsons_loop.simps [simp del]

text \<open>
  The value of a computation on a 32-bit \<open>int\<close>: the two's-complement value that the
  compiled program continues with when the exact value leaves the range of the type
  (in C++ the overflow itself is undefined behaviour).
\<close>

definition int_wrap :: "int \<Rightarrow> int" where
  "int_wrap x = (x + 2147483648) mod 4294967296 - 2147483648"

definition simpsons_rule :: "real \<Rightarrow> real \<Rightarrow> int \<Rightarrow> real" where
  "simpsons_rule a b n =
     (if n \<le> 0 then 0
      else let n = (if n mod 2 \<noteq> 0 then int_wrap (n + 1) else n);
               h = (b - a) / of_int n;
               sm = func a + func b
           in (h / 3) * simpsons_loop a h n 1 sm)"


subsection \<open>Choice of the subdivision count from the bound on the second derivative\<close>

text \<open>
  The two computations of \<open>main\<close>, with the locals \<open>a\<close>, \<open>b\<close>, \<open>M2_val\<close> and \<open>epsilon\<close> they
  read as parameters. \<open>std::pow(b - a, 3)\<close> is the cube, \<open>static_cast<int>\<close> of the value
  of \<open>std::ceil\<close> is the ceiling.
\<close>

definition n_rect_m2 :: "real \<Rightarrow> real \<Rightarrow> real \<Rightarrow> real \<Rightarrow> int" where
  "n_rect_m2 a b M2_val epsilon =
     (let n = \<lceil>sqrt ((b - a) ^ 3 * M2_val / (24 * epsilon))\<rceil>
      in if n = 0 then 1 else n)"

definition n_trap_m2 :: "real \<Rightarrow> real \<Rightarrow> real \<Rightarrow> real \<Rightarrow> int" where
  "n_trap_m2 a b M2_val epsilon =
     (let n = \<lceil>sqrt ((b - a) ^ 3 * M2_val / (12 * epsilon))\<rceil>
      in if n = 0 then 1 else n)"

subsection \<open>The adaptive driver\<close>

text \<open>Division of doubles: \<open>None\<close> stands for the infinity or NaN of a division by zero.\<close>

definition ddiv :: "real \<Rightarrow> real \<Rightarrow> real option" where
  "ddiv x y = (if y = 0 then None else Some (x / y))"

text \<open>\<open>x < epsilon\<close> for a possibly non-finite \<open>x\<close>.\<close>

definition dless :: "real option \<Rightarrow> real \<Rightarrow> bool" where
  "dless x epsilon = (case x of None \<Rightarrow> False | Some e \<Rightarrow> e < epsilon)"

text \<open>\<open>x + y\<close> for a possibly non-finite \<open>y\<close>.\<close>

definition dadd :: "real \<Rightarrow> real option \<Rightarrow> real option" where
  "dadd x y = (case y of None \<Rightarrow> None | Some q \<Rightarrow> Some (x + q))"

datatype warning =
  MaxSubdivisions int
| NotConverged int

record runge_result =
  result :: "real option"
  n_final :: int
  calls :: "int list"
  warnings :: "warning list"

definition max_iterations :: int where
  "max_iterations = 2000"

definition initial_n :: "int \<Rightarrow> int" where
  "initial_n p =
     (let n = 2
      in if p = 4 then
           (let n = (if n mod 2 = 0 then n else n + 1)
            in if n = 0 then 2 else n)
         else n)"

definition min_n_for_reliable_runge :: "int \<Rightarrow> int" where
  "min_n_for_reliable_runge p = (if p = 4 then 8 else 1)"

text \<open>
  The value returned and the warnings written after the loop, when it was left by
  \<open>break\<close> (\<open>too_many\<close>) or by its \<open>while\<close> condition.
\<close>

definition not_converged ::
  "int \<Rightarrow> real \<Rightarrow> real \<Rightarrow> int \<Rightarrow> int \<Rightarrow> int list \<Rightarrow> bool \<Rightarrow> runge_result" where
  "not_converged p I_h I_2h n current_iteration cs too_many =
     \<lparr>result = dadd I_h (ddiv (I_h - I_2h) (2 powi p - 1)),
      n_final = n,
      calls = cs,
      warnings = (if too_many then [MaxSubdivisions n] else []) @ [NotConverged current_iteration]\<rparr>"

text \<open>
  The \<open>do ... while\<close> loop. Its state is \<open>I_h\<close>, \<open>n\<close> and \<open>current_iteration\<close>; \<open>cs\<close> is
  the list of the subdivision counts the integrator has been called with so far.
\<close>

function runge_loop ::
  "(real \<Rightarrow> real \<Rightarrow> int \<Rightarrow> real) \<Rightarrow> real \<Rightarrow> real \<Rightarrow> real \<Rightarrow> int \<Rightarrow>
   real \<Rightarrow> int \<Rightarrow> int \<Rightarrow> int list \<Rightarrow> runge_result" where
  "runge_loop integrator a b epsilon p I_h n current_iteration cs =
     (let I_2h = I_h;
          n = n * 2;
          I_h = integrator a b n;
          cs = cs @ [n];
          error_estimate_component = I_h - I_2h;
          runge_denominator = 2 powi p - 1;
          current_error_estimate = ddiv \<bar>error_estimate_component\<bar> runge_denominator;
          stopping_condition_met = dless current_error_estimate epsilon;
          stopping_condition_met =
            (if p \<ge> 4 \<and> n < min_n_for_reliable_runge p \<and> stopping_condition_met
                 \<and> current_iteration < max_iterations - 1
             then False else stopping_condition_met)
      in if stopping_condition_met then
           \<lparr>result = dadd I_h (ddiv error_estimate_component runge_denominator),
            n_final = n, calls = cs, warnings = []\<rparr>
         else
           (let current_iteration = current_iteration + 1
            in if n > 4000000 then not_converged p I_h I_2h n current_iteration cs True
               else if current_iteration < max_iterations then
                 runge_loop integrator a b epsilon p I_h n current_iteration cs
               else not_converged p I_h I_2h n current_iteration cs False))"
  by pat_completeness auto
termination
  by (relation "measure (\<lambda>(integrator, a, b, epsilon, p, I_h, n, current_iteration, cs).
        nat (max_iterations - current_iteration))") auto

declare runge_loop.simps [simp del]

definition integrate_with_runge ::
  "(real \<Rightarrow> real \<Rightarrow> int \<Rightarrow> real) \<Rightarrow> real \<Rightarrow> real \<Rightarrow> real \<Rightarrow> int \<Rightarrow> runge_result" where
  "integrate_with_runge integrator a b epsilon p =
     (let n = initial_n p;
          I_h = integrator a b n
      in runge_loop integrator a b epsilon p I_h n 0 [n])"

subsection \<open>Auxiliary notions for the analysis of the driver\<close>

text \<open>
  The decision taken in one iteration of the loop, as a function of the values the
  iteration has computed: the final value of \<open>stopping_condition_met\<close>.
\<close>

definition iteration_stops :: "real \<Rightarrow> int \<Rightarrow> real \<Rightarrow> real \<Rightarrow> int \<Rightarrow> int \<Rightarrow> bool" where
  "iteration_stops epsilon p I_h I_2h n current_iteration =
     (let error_estimate_component = I_h - I_2h;
          runge_denominator = 2 powi p - 1;
          current_error_estimate = ddiv \<bar>error_estimate_component\<bar> runge_denominator;
          stopping_condition_met = dless current_error_estimate epsilon
      in if p \<ge> 4 \<and> n < min_n_for_reliable_runge p \<and> stopping_condition_met
              \<and> current_iteration < max_iterations - 1
         then False else stopping_condition_met)"

text \<open>The value returned from inside the loop.\<close>

definition converged :: "int \<Rightarrow> real \<Rightarrow> real \<Rightarrow> int \<Rightarrow> int list \<Rightarrow> runge_result" where
  "converged p I_h I_2h n cs =
     \<lparr>result = dadd I_h (ddiv (I_h - I_2h) (2 powi p - 1)), n_final = n, calls = cs, warnings = []\<rparr>"

text \<open>The subdivision count after \<open>k\<close> doublings of the initial count 2.\<close>

definition doubled :: "nat \<Rightarrow> int" where
  "doubled k = 2 * 2 ^ k"

text \<open>
  What a run returns when its \<open>m\<close>-th iteration is the last one: the value returned from
  inside the loop if that iteration decides to stop, the value returned after the loop
  otherwise.
\<close>

definition outcome_at ::
  "(real \<Rightarrow> real \<Rightarrow> int \<Rightarrow> real) \<Rightarrow> real \<Rightarrow> real \<Rightarrow> real \<Rightarrow> int \<Rightarrow> nat \<Rightarrow> runge_result" where
  "outcome_at integrator a b epsilon p m =
     (let n = doubled m;
          I_h = integrator a b n;
          I_2h = integrator a b (doubled (m - 1));
          cs = map doubled [0..<Suc m]
      in if iteration_stops epsilon p I_h I_2h n (int m - 1) then converged p I_h I_2h n cs
         else not_converged p I_h I_2h n (int m) cs True)"

subsection \<open>Inputs used in the examples\<close>

text \<open>
  An integrator whose values do not settle as \<open>n\<close> grows: a sum of \<open>n\<close> unit samples
  that is not multiplied by the step.
\<close>

definition unscaled_sum :: "real \<Rightarrow> real \<Rightarrow> int \<Rightarrow> real" where
  "unscaled_sum a b n = of_int n"

section \<open>Properties\<close>

subsection \<open>Degenerate subdivision counts\<close>

text \<open>
  C5. For every interval and every subdivision count \<open>n \<le> 0\<close>, each of the three fixed
  formulas returns 0.
\<close>

theorem fixed_formulas_degenerate:
  "n \<le> 0 \<Longrightarrow>
     central_rectangles a b n = 0 \<and> trapezoidal_rule a b n = 0 \<and> simpsons_rule a b n = 0"
  by (simp add: central_rectangles_def trapezoidal_rule_def simpsons_rule_def)

theorem fixed_formulas_degenerate_witness:
  "(-3::int) \<le> 0 \<and> central_rectangles 0 2 (-3) = 0 \<and> trapezoidal_rule 0 2 (-3) = 0
     \<and> simpsons_rule 0 2 (-3) = 0"
  using fixed_formulas_degenerate [of "-3" 0 2] by simp

subsection \<open>The loops of the fixed formulas\<close>

lemma trapezoidal_loop_sum:
  "i \<le> n \<Longrightarrow> trapezoidal_loop a h n i s = s + (\<Sum>j = i..n - 1. func (a + of_int j * h))"
proof (induction a h n i s rule: trapezoidal_loop.induct)
  case (1 a h n i s)
  show ?case
  proof (cases "i < n")
    case True
    have split: "{i..n - 1} = insert i {i + 1..n - 1}" using True by auto
    have "trapezoidal_loop a h n i s = trapezoidal_loop a h n (i + 1) (s + func (a + of_int i * h))"
      using True by (simp add: trapezoidal_loop.simps [of a h n i s])
    also have "\<dots> = s + func (a + of_int i * h) + (\<Sum>j = i + 1..n - 1. func (a + of_int j * h))"
      using 1 True by simp
    also have "\<dots> = s + (\<Sum>j = i..n - 1. func (a + of_int j * h))"
      unfolding split by simp
    finally show ?thesis .
  next
    case False
    with 1(2) have "i = n" by simp
    then show ?thesis by (simp add: trapezoidal_loop.simps [of a h n n s])
  qed
qed

text \<open>
  C7. For every interval and every subdivision count \<open>n > 0\<close>, the trapezoidal rule
  returns \<open>h \<cdot> ((f(a) + f(b)) / 2 + \<Sum>\<^bsub>i = 1..n - 1\<^esub> f(a + i h))\<close> with the step
  \<open>h = (b - a) / n\<close>, where \<open>f\<close> is the integrand \<open>f(x) = (x + 3) / (x\<^sup>2 + 4)\<close>.
\<close>

theorem trapezoidal_rule_formula:
  "0 < n \<Longrightarrow>
     trapezoidal_rule a b n =
       (let h = (b - a) / of_int n
        in h * ((func a + func b) / 2 + (\<Sum>i = 1..n - 1. func (a + of_int i * h)))) \<and>
     (\<forall>x. func x = (x + 3) / (x\<^sup>2 + 4))"
  by (simp add: trapezoidal_rule_def Let_def trapezoidal_loop_sum func_def power2_eq_square)

text \<open>The rule on the interval of \<open>main\<close>, for the two smallest counts of the driver.\<close>

lemma trapezoidal_rule_2: "trapezoidal_rule 0 2 2 = 119 / 80"
  by (simp add: trapezoidal_rule_def func_def trapezoidal_loop.simps)

lemma trapezoidal_rule_4: "trapezoidal_rule 0 2 4 = 20611 / 13600"
  by (simp add: trapezoidal_rule_def func_def trapezoidal_loop.simps)

theorem trapezoidal_rule_formula_witness:
  "(0::int) < 2 \<and> trapezoidal_rule 0 2 2 = 1 * ((3 / 4 + 5 / 8) / 2 + 4 / 5)"
  using trapezoidal_rule_formula [of 2 0 2] by (simp add: func_def)

subsection \<open>Simpson's rule on an odd subdivision count\<close>












subsection \<open>Subdivision counts from the error bound\<close>

lemma ceiling_sqrt_eq:
  assumes "(of_int k - 1)\<^sup>2 < x" "x \<le> (of_int k)\<^sup>2" "1 \<le> k"
  shows "\<lceil>sqrt x\<rceil> = k"
proof -
  have "of_int k - 1 < sqrt x" using assms(1,3) by (intro real_less_rsqrt)
  moreover have "sqrt x \<le> of_int k" using assms(2,3) by (intro real_le_lsqrt) auto
  ultimately show ?thesis by (simp add: ceiling_eq_iff)
qed

lemma at_least_one: "0 \<le> n \<Longrightarrow> (if n = 0 then 1 else n) = max 1 (n::int)"
  by auto

lemma count_at_least_one:
  assumes "0 \<le> x"
  shows "(let n = \<lceil>sqrt x\<rceil> in if n = 0 then 1 else n) = max 1 \<lceil>sqrt x\<rceil>"
proof -
  have "0 \<le> sqrt x" using assms by simp
  then have "- 1 < sqrt x" by linarith
  then have "0 \<le> \<lceil>sqrt x\<rceil>" by simp
  then show ?thesis unfolding Let_def by (rule at_least_one)
qed

text \<open>
  C2. For every interval of width \<open>L = b - a > 0\<close>, bound \<open>M2 \<ge> 0\<close> and tolerance
  \<open>\<epsilon> > 0\<close>, the subdivision count computed for the method constant \<open>k\<close> (24 for the
  central rectangles, 12 for the trapezoids) is \<open>\<lceil>sqrt (L\<^sup>3 M2 / (k \<epsilon>))\<rceil>\<close>, and at least 1;
  for \<open>L = 2\<close>, \<open>M2 = 0.43156\<close> and \<open>\<epsilon> = 0.0001\<close> it is 38 for \<open>k = 24\<close> and 54 for
  \<open>k = 12\<close>. (The two quotients are about 1438.5 and 2877.1, between \<open>37\<^sup>2 = 1369\<close> and
  \<open>38\<^sup>2 = 1444\<close>, and between \<open>53\<^sup>2 = 2809\<close> and \<open>54\<^sup>2 = 2916\<close>: far from the squares,
  compared with the rounding of the doubles.)
\<close>

theorem subdivisions_from_bound:
  assumes "0 < b - a" and "0 \<le> M2" and "0 < epsilon"
  shows "n_rect_m2 a b M2 epsilon = max 1 \<lceil>sqrt ((b - a) ^ 3 * M2 / (24 * epsilon))\<rceil>
       \<and> n_trap_m2 a b M2 epsilon = max 1 \<lceil>sqrt ((b - a) ^ 3 * M2 / (12 * epsilon))\<rceil>
       \<and> n_rect_m2 0 2 (43156 / 100000) (1 / 10000) = 38
       \<and> n_trap_m2 0 2 (43156 / 100000) (1 / 10000) = 54"
proof -
  have "0 \<le> (b - a) ^ 3 * M2 / (24 * epsilon)" "0 \<le> (b - a) ^ 3 * M2 / (12 * epsilon)"
    using assms by simp_all
  then have "n_rect_m2 a b M2 epsilon = max 1 \<lceil>sqrt ((b - a) ^ 3 * M2 / (24 * epsilon))\<rceil>"
    "n_trap_m2 a b M2 epsilon = max 1 \<lceil>sqrt ((b - a) ^ 3 * M2 / (12 * epsilon))\<rceil>"
    unfolding n_rect_m2_def n_trap_m2_def by (simp_all only: count_at_least_one)
  moreover have "\<lceil>sqrt ((2 - 0) ^ 3 * (43156 / 100000) / (24 * (1 / 10000)))\<rceil> = 38"
    by (rule ceiling_sqrt_eq) (simp_all add: power2_eq_square)
  then have "n_rect_m2 0 2 (43156 / 100000) (1 / 10000) = 38"
    unfolding n_rect_m2_def by (simp only: Let_def) simp
  moreover have "\<lceil>sqrt ((2 - 0) ^ 3 * (43156 / 100000) / (12 * (1 / 10000)))\<rceil> = 54"
    by (rule ceiling_sqrt_eq) (simp_all add: power2_eq_square)
  then have "n_trap_m2 0 2 (43156 / 100000) (1 / 10000) = 54"
    unfolding n_trap_m2_def by (simp only: Let_def) simp
  ultimately show ?thesis by blast
qed

theorem subdivisions_from_bound_witness:
  "(0::real) < 2 - 0 \<and> (0::real) \<le> 43156 / 100000 \<and> (0::real) < 1 / 10000
     \<and> n_rect_m2 0 2 (43156 / 100000) (1 / 10000) = 38
     \<and> n_trap_m2 0 2 (43156 / 100000) (1 / 10000) = 54"
proof -
  have h: "(0::real) < 2 - 0" "(0::real) \<le> 43156 / 100000" "(0::real) < 1 / 10000"
    by simp_all
  from subdivisions_from_bound [OF h] h show ?thesis by blast
qed

subsection \<open>One iteration of the adaptive loop\<close>

lemma runge_loop_stop:
  "iteration_stops epsilon p (integrator a b (n * 2)) I_h (n * 2) it \<Longrightarrow>
   runge_loop integrator a b epsilon p I_h n it cs =
     converged p (integrator a b (n * 2)) I_h (n * 2) (cs @ [n * 2])"
  by (auto simp add: runge_loop.simps [of integrator a b epsilon p I_h n it cs] Let_def
      iteration_stops_def converged_def split: if_splits)

lemma runge_loop_break:
  "\<not> iteration_stops epsilon p (integrator a b (n * 2)) I_h (n * 2) it \<Longrightarrow> n * 2 > 4000000 \<Longrightarrow>
   runge_loop integrator a b epsilon p I_h n it cs =
     not_converged p (integrator a b (n * 2)) I_h (n * 2) (it + 1) (cs @ [n * 2]) True"
  by (auto simp add: runge_loop.simps [of integrator a b epsilon p I_h n it cs] Let_def
      iteration_stops_def split: if_splits)

lemma runge_loop_budget:
  "\<not> iteration_stops epsilon p (integrator a b (n * 2)) I_h (n * 2) it \<Longrightarrow> \<not> n * 2 > 4000000 \<Longrightarrow>
   \<not> it + 1 < max_iterations \<Longrightarrow>
   runge_loop integrator a b epsilon p I_h n it cs =
     not_converged p (integrator a b (n * 2)) I_h (n * 2) (it + 1) (cs @ [n * 2]) False"
  by (auto simp add: runge_loop.simps [of integrator a b epsilon p I_h n it cs] Let_def
      iteration_stops_def split: if_splits)

lemma runge_loop_continue:
  "\<not> iteration_stops epsilon p (integrator a b (n * 2)) I_h (n * 2) it \<Longrightarrow> \<not> n * 2 > 4000000 \<Longrightarrow>
   it + 1 < max_iterations \<Longrightarrow>
   runge_loop integrator a b epsilon p I_h n it cs =
     runge_loop integrator a b epsilon p (integrator a b (n * 2)) (n * 2) (it + 1) (cs @ [n * 2])"
  by (auto simp add: runge_loop.simps [of integrator a b epsilon p I_h n it cs] Let_def
      iteration_stops_def split: if_splits)

lemma powi_eq_one: "2 powi (p::int) = (1::real) \<longleftrightarrow> p = 0"
proof (cases "p = 0")
  case True then show ?thesis by simp
next
  case False
  show ?thesis
  proof (cases "0 < p")
    case True
    then have "(1::real) < 2 ^ nat p" by (simp add: one_less_power)
    then have "(2::real) ^ nat p \<noteq> 1" by simp
    then show ?thesis using True by (simp add: power_int_def)
  next
    case neg: False
    with False have "p < 0" by simp
    then have "(1::real) < 2 ^ nat (- p)" by (simp add: one_less_power)
    then have "(1 / 2 :: real) ^ nat (- p) \<noteq> 1" by (simp add: power_one_over)
    then show ?thesis using \<open>p < 0\<close> by (simp add: power_int_def)
  qed
qed

lemma doubled_Suc: "doubled k * 2 = doubled (Suc k)"
  by (simp add: doubled_def)

lemma doubled_mono: "j \<le> k \<Longrightarrow> doubled j \<le> doubled k"
  by (simp add: doubled_def)

lemma doubled_20: "doubled 20 = 2097152"
  by (simp add: doubled_def)

lemma doubled_21: "doubled 21 = 4194304"
  by (simp add: doubled_def)

lemma runge_loop_at_stop:
  assumes "iteration_stops eps p (f a b (doubled (Suc j))) (f a b (doubled j)) (doubled (Suc j)) (int j)"
  shows "runge_loop f a b eps p (f a b (doubled j)) (doubled j) (int j) (map doubled [0..<Suc j])
           = outcome_at f a b eps p (Suc j)"
  using assms runge_loop_stop [of eps p f a b "doubled j" "f a b (doubled j)" "int j" "map doubled [0..<Suc j]"]
  by (simp add: outcome_at_def doubled_Suc Let_def add.commute)

lemma runge_loop_at_break:
  assumes "\<not> iteration_stops eps p (f a b (doubled (Suc j))) (f a b (doubled j)) (doubled (Suc j)) (int j)"
    and "4000000 < doubled (Suc j)"
  shows "runge_loop f a b eps p (f a b (doubled j)) (doubled j) (int j) (map doubled [0..<Suc j])
           = outcome_at f a b eps p (Suc j)"
  using assms runge_loop_break [of eps p f a b "doubled j" "f a b (doubled j)" "int j" "map doubled [0..<Suc j]"]
  by (simp add: outcome_at_def doubled_Suc Let_def add.commute)

lemma runge_loop_at_continue:
  assumes "\<not> iteration_stops eps p (f a b (doubled (Suc j))) (f a b (doubled j)) (doubled (Suc j)) (int j)"
    and "\<not> 4000000 < doubled (Suc j)" and "int j + 1 < max_iterations"
  shows "runge_loop f a b eps p (f a b (doubled j)) (doubled j) (int j) (map doubled [0..<Suc j])
           = runge_loop f a b eps p (f a b (doubled (Suc j))) (doubled (Suc j)) (int (Suc j))
               (map doubled [0..<Suc (Suc j)])"
  using assms runge_loop_continue [of eps p f a b "doubled j" "f a b (doubled j)" "int j" "map doubled [0..<Suc j]"]
  by (simp add: doubled_Suc add.commute)

lemma runge_loop_run:
  "j \<le> 20 \<Longrightarrow>
   \<exists>m. j < m \<and> m \<le> 21 \<and>
     runge_loop f a b eps p (f a b (doubled j)) (doubled j) (int j) (map doubled [0..<Suc j])
       = outcome_at f a b eps p m \<and>
     (m < 21 \<longrightarrow>
        iteration_stops eps p (f a b (doubled m)) (f a b (doubled (m - 1))) (doubled m) (int m - 1))"
proof (induction "20 - j" arbitrary: j)
  case 0
  then have j: "j = 20" by simp
  have big: "4000000 < doubled (Suc j)" unfolding j by (simp add: doubled_def)
  have "runge_loop f a b eps p (f a b (doubled j)) (doubled j) (int j) (map doubled [0..<Suc j])
          = outcome_at f a b eps p (Suc j)"
    using runge_loop_at_stop [of eps p f a b j] runge_loop_at_break [of eps p f a b j] big by blast
  moreover have "j < Suc j" "Suc j \<le> 21" "\<not> Suc j < 21" using j by simp_all
  ultimately show ?case by blast
next
  case (Suc d)
  then have j: "j < 20" by simp
  show ?case
  proof (cases "iteration_stops eps p (f a b (doubled (Suc j))) (f a b (doubled j)) (doubled (Suc j)) (int j)")
    case True
    have "Suc j - 1 = j" "int (Suc j) - 1 = int j" by simp_all
    with True have "iteration_stops eps p (f a b (doubled (Suc j))) (f a b (doubled (Suc j - 1)))
        (doubled (Suc j)) (int (Suc j) - 1)" by simp
    moreover have "j < Suc j" "Suc j \<le> 21" using j by simp_all
    ultimately show ?thesis using runge_loop_at_stop [of eps p f a b j] True by blast
  next
    case False
    have "doubled (Suc j) \<le> doubled 20" using j by (intro doubled_mono) simp
    then have small: "\<not> 4000000 < doubled (Suc j)" by (simp add: doubled_20)
    have it: "int j + 1 < max_iterations" using j by (simp add: max_iterations_def)
    have d: "d = 20 - Suc j" using Suc(2) by simp
    have le: "Suc j \<le> 20" using j by simp
    from Suc(1) [OF d le] obtain m where m: "Suc j < m" "m \<le> 21"
      and run: "runge_loop f a b eps p (f a b (doubled (Suc j))) (doubled (Suc j)) (int (Suc j))
                  (map doubled [0..<Suc (Suc j)]) = outcome_at f a b eps p m"
      and ex: "m < 21 \<longrightarrow>
        iteration_stops eps p (f a b (doubled m)) (f a b (doubled (m - 1))) (doubled m) (int m - 1)"
      by blast
    from m have "j < m" by simp
    have "runge_loop f a b eps p (f a b (doubled j)) (doubled j) (int j) (map doubled [0..<Suc j])
            = outcome_at f a b eps p m"
      using runge_loop_at_continue [of eps p f a b j] False small it run by simp
    with m ex \<open>j < m\<close> show ?thesis by blast
  qed
qed

lemma integrate_with_runge_run:
  "\<exists>m. 1 \<le> m \<and> m \<le> 21 \<and> integrate_with_runge f a b eps p = outcome_at f a b eps p m \<and>
     (m < 21 \<longrightarrow>
        iteration_stops eps p (f a b (doubled m)) (f a b (doubled (m - 1))) (doubled m) (int m - 1))"
proof -
  have init: "initial_n p = doubled 0" by (simp add: initial_n_def doubled_def)
  have "integrate_with_runge f a b eps p
          = runge_loop f a b eps p (f a b (doubled 0)) (doubled 0) (int 0) (map doubled [0..<Suc 0])"
    by (simp add: integrate_with_runge_def init Let_def)
  moreover from runge_loop_run [of 0 f a b eps p] obtain m where "0 < m" "m \<le> 21"
    "runge_loop f a b eps p (f a b (doubled 0)) (doubled 0) (int 0) (map doubled [0..<Suc 0])
       = outcome_at f a b eps p m"
    "m < 21 \<longrightarrow>
        iteration_stops eps p (f a b (doubled m)) (f a b (doubled (m - 1))) (doubled m) (int m - 1)"
    by auto
  moreover from \<open>0 < m\<close> have "1 \<le> m" by simp
  ultimately show ?thesis by metis
qed

lemma runge_loop_calls_length:
  "length (calls (runge_loop f a b eps p I_h n it cs))
     \<le> length cs + max 1 (nat (max_iterations - it))"
proof (induction f a b eps p I_h n it cs rule: runge_loop.induct)
  case (1 f a b eps p I_h n it cs)
  show ?case
  proof (cases "iteration_stops eps p (f a b (n * 2)) I_h (n * 2) it")
    case True
    then show ?thesis by (simp add: runge_loop_stop converged_def)
  next
    case False
    show ?thesis
    proof (cases "n * 2 > 4000000")
      case True
      with False show ?thesis by (simp add: runge_loop_break not_converged_def)
    next
      case small: False
      show ?thesis
      proof (cases "it + 1 < max_iterations")
        case True
        have "length (calls (runge_loop f a b eps p (f a b (n * 2)) (n * 2) (it + 1) (cs @ [n * 2])))
              \<le> length (cs @ [n * 2]) + max 1 (nat (max_iterations - (it + 1)))"
          using 1 False small True
          by (simp add: iteration_stops_def Let_def)
        then show ?thesis
          using True runge_loop_continue [of eps p f a b n I_h it cs] False small by simp
      next
        case False2: False
        with False small show ?thesis by (simp add: runge_loop_budget not_converged_def)
      qed
    qed
  qed
qed

subsection \<open>The stopping rule\<close>

lemma iteration_stops_rule:
  assumes "p \<noteq> 0" and "\<bar>I_h - I_2h\<bar> / (2 powi p - 1) < epsilon" and "p < 4 \<or> 8 \<le> n"
  shows "iteration_stops epsilon p I_h I_2h n it"
proof -
  have "2 powi p - (1::real) \<noteq> 0" using assms(1) by (simp add: powi_eq_one)
  then have "dless (ddiv \<bar>I_h - I_2h\<bar> (2 powi p - 1)) epsilon"
    using assms(2) by (simp add: dless_def ddiv_def)
  moreover have "\<not> (4 \<le> p \<and> n < min_n_for_reliable_runge p)"
    using assms(3) by (auto simp add: min_n_for_reliable_runge_def)
  ultimately show ?thesis unfolding iteration_stops_def Let_def by auto
qed

text \<open>
  C1. For every interval, tolerance and order \<open>p\<close>, in every iteration of the loop: when
  the Runge estimate \<open>e = |I_h - I_2h| / (2\<^sup>p - 1)\<close> of the iteration satisfies
  \<open>e < \<epsilon>\<close>, and \<open>p < 4\<close> or the doubled subdivision count \<open>n\<close> is at least 8, the driver
  returns from that iteration, with the value \<open>I_h + (I_h - I_2h) / (2\<^sup>p - 1)\<close> and that
  \<open>n\<close> as the final count. The theorem is about an arbitrary state of the loop, hence
  about every iteration of every run. For \<open>p = 0\<close> the estimate is a division by zero:
  it is not a number below \<open>\<epsilon>\<close>, and the premise of the claim does not hold.
\<close>

theorem runge_stopping_rule:
  assumes "p \<noteq> 0"
    and "\<bar>integrator a b (n * 2) - I_h\<bar> / (2 powi p - 1) < epsilon"
    and "p < 4 \<or> 8 \<le> n * 2"
  shows "result (runge_loop integrator a b epsilon p I_h n it cs)
           = Some (integrator a b (n * 2) + (integrator a b (n * 2) - I_h) / (2 powi p - 1))
       \<and> n_final (runge_loop integrator a b epsilon p I_h n it cs) = n * 2
       \<and> warnings (runge_loop integrator a b epsilon p I_h n it cs) = []"
proof -
  have "iteration_stops epsilon p (integrator a b (n * 2)) I_h (n * 2) it"
    using assms by (rule iteration_stops_rule)
  then have "runge_loop integrator a b epsilon p I_h n it cs
               = converged p (integrator a b (n * 2)) I_h (n * 2) (cs @ [n * 2])"
    by (rule runge_loop_stop)
  moreover have "2 powi p - (1::real) \<noteq> 0" using assms(1) by (simp add: powi_eq_one)
  ultimately show ?thesis by (simp add: converged_def dadd_def ddiv_def)
qed

text \<open>
  The first iteration of the run on the trapezoidal rule over \<open>[0, 2]\<close> with tolerance
  \<open>0.01\<close>: the estimate is \<open>|20611 / 13600 - 119 / 80| / 3 < 0.01\<close>.
\<close>

theorem runge_stopping_rule_witness:
  "(2::int) \<noteq> 0
   \<and> \<bar>trapezoidal_rule 0 2 (2 * 2) - trapezoidal_rule 0 2 2\<bar> / (2 powi 2 - 1) < 1 / 100
   \<and> ((2::int) < 4 \<or> (8::int) \<le> 2 * 2)
   \<and> result (integrate_with_runge trapezoidal_rule 0 2 (1 / 100) 2) = Some (10369 / 6800)
   \<and> n_final (integrate_with_runge trapezoidal_rule 0 2 (1 / 100) 2) = 4"
  using runge_stopping_rule [of 2 trapezoidal_rule 0 2 2 "trapezoidal_rule 0 2 2" "1 / 100" 0 "[2]"]
  by (simp add: integrate_with_runge_def initial_n_def trapezoidal_rule_2 trapezoidal_rule_4)

subsection \<open>Whole runs of the driver\<close>

text \<open>
  Every run ends in its \<open>m\<close>-th iteration for some \<open>1 \<le> m \<le> 21\<close>
  (\<open>integrate_with_runge_run\<close>): the fields of the result follow.
\<close>

lemma outcome_at_calls: "calls (outcome_at f a b eps p m) = map doubled [0..<Suc m]"
  by (simp add: outcome_at_def Let_def converged_def not_converged_def)

lemma outcome_at_n_final: "n_final (outcome_at f a b eps p m) = doubled m"
  by (simp add: outcome_at_def Let_def converged_def not_converged_def)

lemma outcome_at_result:
  "result (outcome_at f a b eps p m)
     = dadd (f a b (doubled m)) (ddiv (f a b (doubled m) - f a b (doubled (m - 1))) (2 powi p - 1))"
  by (simp add: outcome_at_def Let_def converged_def not_converged_def)

lemma outcome_at_warnings:
  "warnings (outcome_at f a b eps p m)
     = (if iteration_stops eps p (f a b (doubled m)) (f a b (doubled (m - 1))) (doubled m) (int m - 1)
        then [] else [MaxSubdivisions (doubled m), NotConverged (int m)])"
  by (simp add: outcome_at_def Let_def converged_def not_converged_def)

lemma last_doubled: "last (map doubled [0..<Suc m]) = doubled m"
  by (simp add: last_map)

lemma butlast_doubled: "butlast (map doubled [0..<Suc m]) = map doubled [0..<m]"
  by (simp add: map_butlast [symmetric])

lemma doubled_0: "doubled 0 = 2"
  by (simp add: doubled_def)

lemma doubled_1: "doubled (Suc 0) = 4"
  by (simp add: doubled_def)

subsection \<open>The runs of \<open>main\<close>, and a run that does not converge\<close>

text \<open>
  The values of the two rules on \<open>[0, 2]\<close> for the subdivision counts the driver asks
  for, and the two runs of \<open>main\<close> (tolerance \<open>0.0001\<close>): the trapezoidal rule with
  \<open>p = 2\<close> stops at \<open>n = 64\<close>, Simpson's rule with \<open>p = 4\<close> at \<open>n = 8\<close>.
\<close>

lemma trapezoidal_rule_8: "trapezoidal_rule 0 2 8 = 30400871411 / 19969179200"
  by (simp add: trapezoidal_rule_def func_def trapezoidal_loop.simps)

lemma trapezoidal_rule_16: "trapezoidal_rule 0 2 16 = 3929824571752070010382703 / 2578454140273578732713600"
  by (simp add: trapezoidal_rule_def func_def trapezoidal_loop.simps)

lemma trapezoidal_rule_32:
  "trapezoidal_rule 0 2 32 =
     129895792805880190318397824721055666626799427295083799568565771 /
     85203917452438246233841656193021825493629934634083204381098240"
  by (simp add: trapezoidal_rule_def func_def trapezoidal_loop.simps)

lemma trapezoidal_rule_64:
  "trapezoidal_rule 0 2 64 =
     330952397165072841243537689490032625966867597034222790429269731936286987143339962853868458774618820762468936141425682369072044267355889789867 /
     217069886917578069744492759314442342517459283350908549119572789543736563308229549222506379976446226538962829335443257989358380622615371072000"
  by (simp add: trapezoidal_rule_def func_def trapezoidal_loop.simps)

lemma trapezoid_main_run:
  "integrate_with_runge trapezoidal_rule 0 2 (1 / 10000) 2 =
     \<lparr>result = Some (4798921832233513289845381306318545408413686019908311513360290126605651563628794917737953677087154392820353881467076302115686837765984256408437 /
      3147513360304882011295145010059413966503159608588173962233805448384180167969328463726342509658470284814961025363927240845696519027922880544000),
      n_final = 64, calls = [2, 4, 8, 16, 32, 64], warnings = []\<rparr>"
  by (simp add: integrate_with_runge_def initial_n_def runge_loop.simps Let_def
      trapezoidal_rule_2 trapezoidal_rule_4 trapezoidal_rule_8 trapezoidal_rule_16
      trapezoidal_rule_32 trapezoidal_rule_64 ddiv_def dless_def dadd_def
      min_n_for_reliable_runge_def max_iterations_def)

lemma simpsons_rule_2: "simpsons_rule 0 2 2 = 61 / 40"
  by (simp add: simpsons_rule_def func_def simpsons_loop.simps)

lemma simpsons_rule_4: "simpsons_rule 0 2 4 = 10369 / 6800"
  by (simp add: simpsons_rule_def func_def simpsons_loop.simps)

lemma simpsons_rule_8: "simpsons_rule 0 2 8 = 15223316817 / 9984589600"
  by (simp add: simpsons_rule_def func_def simpsons_loop.simps)

lemma simpson_main_run:
  "integrate_with_runge simpsons_rule 0 2 (1 / 10000) 4
     = \<lparr>result = Some (114174019127 / 74884422000), n_final = 8, calls = [2, 4, 8], warnings = []\<rparr>"
  by (simp add: integrate_with_runge_def initial_n_def runge_loop.simps Let_def
      simpsons_rule_2 simpsons_rule_4 simpsons_rule_8 ddiv_def dless_def dadd_def
      min_n_for_reliable_runge_def max_iterations_def)

text \<open>
  The estimates of \<open>unscaled_sum\<close> never fall below the tolerance: the run doubles \<open>n\<close>
  until the test \<open>n > 4000000\<close> leaves the loop, after 21 iterations.
\<close>

lemma unscaled_sum_outcome:
  "integrate_with_runge unscaled_sum 0 2 (1 / 10000) 2
     = \<lparr>result = Some (14680064 / 3), n_final = 4194304,
        calls = [2, 4, 8, 16, 32, 64, 128, 256, 512, 1024, 2048, 4096, 8192, 16384, 32768, 65536,
                 131072, 262144, 524288, 1048576, 2097152, 4194304],
        warnings = [MaxSubdivisions 4194304, NotConverged 21]\<rparr>"
  by (simp add: integrate_with_runge_def initial_n_def runge_loop.simps Let_def
      unscaled_sum_def ddiv_def dless_def dadd_def not_converged_def
      min_n_for_reliable_runge_def max_iterations_def)

subsection \<open>The ceiling on the subdivision count\<close>

text \<open>
  C3 (as stated). During every run of the driver the integrator is never called with a
  subdivision count greater than 4,000,000. This fails: the test \<open>n > 4000000\<close> comes
  after the call of the integrator with the doubled \<open>n\<close>, so the last call of a run that
  does not converge has \<open>n = 4194304\<close>.
\<close>

theorem subdivision_ceiling_counterexample:
  "(4194304::int) \<in> set (calls (integrate_with_runge unscaled_sum 0 2 (1 / 10000) 2))
   \<and> \<not> (4194304::int) \<le> 4000000"
  by (simp add: unscaled_sum_outcome)

text \<open>
  C3 (amended). During every run of the driver the integrator is never called with a
  subdivision count greater than 4,194,304 (\<open>2\<^sup>2\<^sup>2\<close>), and only the last call of a run
  can have a count greater than 4,000,000: the loop is left once \<open>n\<close> exceeds 4,000,000.
\<close>

theorem subdivision_ceiling:
  "(\<forall>n \<in> set (calls (integrate_with_runge integrator a b epsilon p)). n \<le> 4194304)
   \<and> (\<forall>n \<in> set (butlast (calls (integrate_with_runge integrator a b epsilon p))). n \<le> 4000000)"
proof -
  obtain m where m: "m \<le> 21"
    and run: "integrate_with_runge integrator a b epsilon p = outcome_at integrator a b epsilon p m"
    using integrate_with_runge_run [of integrator a b epsilon p] by blast
  have "doubled k \<le> 4194304" if "k < Suc m" for k
  proof -
    have "doubled k \<le> doubled 21" using that m by (intro doubled_mono) simp
    then show ?thesis by (simp add: doubled_21)
  qed
  moreover have "doubled k \<le> 4000000" if "k < m" for k
  proof -
    have "doubled k \<le> doubled 20" using that m by (intro doubled_mono) simp
    then show ?thesis by (simp add: doubled_20)
  qed
  ultimately show ?thesis
    unfolding run outcome_at_calls butlast_doubled by auto
qed

theorem subdivision_ceiling_witness:
  "(4194304::int) \<in> set (calls (integrate_with_runge unscaled_sum 0 2 (1 / 10000) 2))
   \<and> (4194304::int) \<le> 4194304
   \<and> (2097152::int) \<in> set (butlast (calls (integrate_with_runge unscaled_sum 0 2 (1 / 10000) 2)))
   \<and> (2097152::int) \<le> 4000000"
  using subdivision_ceiling [of unscaled_sum 0 2 "1 / 10000" 2]
  by (simp add: unscaled_sum_outcome)

subsection \<open>The result of a run that does not converge\<close>

text \<open>
  C4. Whenever the driver leaves the loop without the stopping condition holding (it
  then writes its warning), it still returns: the value is the extrapolation
  \<open>I_h + (I_h - I_2h) / (2\<^sup>p - 1)\<close> computed from its last two iterates, and the final
  count is the last subdivision count. (For \<open>p = 0\<close> the extrapolation is the
  non-finite value of a division by zero.) Such a run has left the loop by the test
  \<open>n > 4000000\<close>, with \<open>n = 4194304\<close>: the count exceeds the ceiling in the 21st
  iteration, long before the 2000 iterations are used up; in a state of the loop where
  they are, the same value is returned (\<open>runge_loop_budget\<close>).
\<close>

theorem exhausted_run_returns_extrapolation:
  assumes "warnings (integrate_with_runge integrator a b epsilon p) \<noteq> []"
  shows "n_final (integrate_with_runge integrator a b epsilon p)
           = last (calls (integrate_with_runge integrator a b epsilon p))
       \<and> result (integrate_with_runge integrator a b epsilon p)
           = dadd (integrator a b (last (calls (integrate_with_runge integrator a b epsilon p))))
               (ddiv (integrator a b (last (calls (integrate_with_runge integrator a b epsilon p)))
                      - integrator a b (last (butlast (calls (integrate_with_runge integrator a b epsilon p)))))
                  (2 powi p - 1))
       \<and> n_final (integrate_with_runge integrator a b epsilon p) = 4194304"
proof -
  obtain m where m: "1 \<le> m"
    and run: "integrate_with_runge integrator a b epsilon p = outcome_at integrator a b epsilon p m"
    and stop: "m < 21 \<longrightarrow> iteration_stops epsilon p (integrator a b (doubled m))
                 (integrator a b (doubled (m - 1))) (doubled m) (int m - 1)"
      and le: "m \<le> 21"
    using integrate_with_runge_run [of integrator a b epsilon p] by blast
  from m obtain m' where m': "m = Suc m'" by (cases m) auto
  have "last (butlast (map doubled [0..<Suc m])) = doubled (m - 1)"
    unfolding butlast_doubled m' by (simp add: last_map)
  then have "n_final (integrate_with_runge integrator a b epsilon p)
           = last (calls (integrate_with_runge integrator a b epsilon p))
       \<and> result (integrate_with_runge integrator a b epsilon p)
           = dadd (integrator a b (last (calls (integrate_with_runge integrator a b epsilon p))))
               (ddiv (integrator a b (last (calls (integrate_with_runge integrator a b epsilon p)))
                      - integrator a b (last (butlast (calls (integrate_with_runge integrator a b epsilon p)))))
                  (2 powi p - 1))"
    by (simp add: run outcome_at_calls outcome_at_n_final outcome_at_result last_doubled
        del: upt_Suc)
  moreover have "\<not> iteration_stops epsilon p (integrator a b (doubled m))
                 (integrator a b (doubled (m - 1))) (doubled m) (int m - 1)"
    using assms unfolding run outcome_at_warnings by (simp split: if_splits)
  with stop le have "m = 21" by auto
  then have "n_final (integrate_with_runge integrator a b epsilon p) = 4194304"
    by (simp add: run outcome_at_n_final doubled_21)
  ultimately show ?thesis by blast
qed

theorem exhausted_run_returns_extrapolation_witness:
  "warnings (integrate_with_runge unscaled_sum 0 2 (1 / 10000) 2) \<noteq> []
   \<and> n_final (integrate_with_runge unscaled_sum 0 2 (1 / 10000) 2) = 4194304
   \<and> result (integrate_with_runge unscaled_sum 0 2 (1 / 10000) 2)
       = Some (4194304 + (4194304 - 2097152) / 3)"
  using exhausted_run_returns_extrapolation [of unscaled_sum 0 2 "1 / 10000" 2]
  by (simp add: unscaled_sum_outcome)

subsection \<open>Termination and the shape of a run\<close>

text \<open>
  C8. The driver terminates on every input (the loop is a total function: its measure
  is the distance of \<open>current_iteration\<close> to \<open>max_iterations\<close>), and its loop executes at
  most 2000 iterations: the integrator is called once before the loop and once in each
  iteration.
\<close>

theorem loop_iterations_bounded:
  "length (calls (integrate_with_runge integrator a b epsilon p)) \<le> 1 + 2000"
  using runge_loop_calls_length [of integrator a b epsilon p "integrator a b (initial_n p)" "initial_n p" 0 "[initial_n p]"]
  by (simp add: integrate_with_runge_def Let_def max_iterations_def)

theorem loop_iterations_bounded_witness:
  "length (calls (integrate_with_runge trapezoidal_rule 0 2 (1 / 10000) 2)) = 1 + 5
   \<and> (1 + 5 :: nat) \<le> 1 + 2000"
  using loop_iterations_bounded [of trapezoidal_rule 0 2 "1 / 10000" 2]
  by (simp add: trapezoid_main_run)

text \<open>
  C9. For every run of the driver, the final subdivision count is a power of 2 times
  the initial count 2.
\<close>

theorem final_count_power_of_two:
  "\<exists>k. n_final (integrate_with_runge integrator a b epsilon p) = 2 ^ k * 2"
proof -
  obtain m where "integrate_with_runge integrator a b epsilon p = outcome_at integrator a b epsilon p m"
    using integrate_with_runge_run [of integrator a b epsilon p] by blast
  then have "n_final (integrate_with_runge integrator a b epsilon p) = 2 ^ m * 2"
    by (simp add: outcome_at_n_final doubled_def)
  then show ?thesis ..
qed

theorem final_count_power_of_two_witness:
  "n_final (integrate_with_runge trapezoidal_rule 0 2 (1 / 10000) 2) = 2 ^ 5 * 2"
  using final_count_power_of_two [of trapezoidal_rule 0 2 "1 / 10000" 2]
  by (simp add: trapezoid_main_run)

text \<open>
  C10. For every integrator, interval, tolerance and order, the loop body runs at least
  once: the integrator is called with 2 and then with the doubled count 4 before the
  driver returns, the driver never returns with the initial count 2, and the final count
  is at least 4.
\<close>

theorem loop_runs_at_least_once:
  "(\<exists>ks. calls (integrate_with_runge integrator a b epsilon p) = 2 # 4 # ks)
   \<and> n_final (integrate_with_runge integrator a b epsilon p) \<noteq> 2
   \<and> 4 \<le> n_final (integrate_with_runge integrator a b epsilon p)"
proof -
  obtain m where m: "1 \<le> m"
    and run: "integrate_with_runge integrator a b epsilon p = outcome_at integrator a b epsilon p m"
    using integrate_with_runge_run [of integrator a b epsilon p] by blast
  from m obtain m' where m': "m = Suc m'" by (cases m) auto
  have "[0..<Suc m] = 0 # Suc 0 # [Suc (Suc 0)..<Suc m]"
    unfolding m' by (simp add: upt_conv_Cons)
  then have "calls (integrate_with_runge integrator a b epsilon p)
               = 2 # 4 # map doubled [Suc (Suc 0)..<Suc m]"
    by (simp add: run outcome_at_calls doubled_0 doubled_1)
  moreover have "doubled (Suc 0) \<le> doubled m" using m by (intro doubled_mono) simp
  then have "4 \<le> n_final (integrate_with_runge integrator a b epsilon p)"
    by (simp add: run outcome_at_n_final doubled_1)
  ultimately show ?thesis by auto
qed

theorem loop_runs_at_least_once_witness:
  "calls (integrate_with_runge simpsons_rule 0 2 (1 / 10000) 4) = 2 # 4 # [8]
   \<and> n_final (integrate_with_runge simpsons_rule 0 2 (1 / 10000) 4) \<noteq> 2
   \<and> 4 \<le> n_final (integrate_with_runge simpsons_rule 0 2 (1 / 10000) 4)"
  using loop_runs_at_least_once [of simpsons_rule 0 2 "1 / 10000" 4]
  by (simp add: simpson_main_run)

end
